theory Spec2Isabelle
  imports Main
begin

section \<open>Data model (server.py, lines 41-77)\<close>

text \<open>
  The three tables of \<^verbatim>\<open>blog.db\<close>. Field names carry the prefix of their table
  (\<open>u_\<close>, \<open>p_\<close>, \<open>c_\<close>) because \<^verbatim>\<open>id\<close> and \<^verbatim>\<open>body\<close> occur in more than one model
  class. Python's unbounded integers are \<open>int\<close>; a \<^verbatim>\<open>datetime.date\<close> is the number of
  its day.
\<close>

type_synonym date = int

record user =
  u_id :: int
  u_email :: string
  u_password :: string
  u_name :: string
  u_classification :: int

record post =
  p_id :: int
  p_title :: string
  p_subtitle :: string
  p_img_url :: string
  p_author :: string
  p_body :: string
  p_date :: date

record comment =
  c_id :: int
  c_user_id :: int
  c_post_id :: int
  c_body :: string
  c_approved :: bool

text \<open>A table is the list of its rows in the order of their insertion.\<close>

record database =
  users :: "user list"
  posts :: "post list"
  comments :: "comment list"

definition empty_db :: database where
  "empty_db = \<lparr>users = [], posts = [], comments = []\<rparr>"

text \<open>
  Exceptions that leave a handler or the module body: \<^verbatim>\<open>sqlalchemy.exc.IntegrityError\<close>
  when a commit violates a \<^verbatim>\<open>unique=True\<close> or a NOT NULL column, and the
  \<^verbatim>\<open>AttributeError\<close> of a call on \<^verbatim>\<open>None\<close> or on an object that is no mapped
  instance. Nothing in server.py catches either.
\<close>

datatype error = IntegrityError | AttributeError

section \<open>The store: what SQLAlchemy and SQLite do for the calls of server.py\<close>

text \<open>
  An \<^verbatim>\<open>INTEGER PRIMARY KEY\<close> column without \<^verbatim>\<open>AUTOINCREMENT\<close> receives one more than
  the largest key of the table, and 1 in an empty table.
\<close>

definition next_id :: "int list \<Rightarrow> int" where
  "next_id ids = foldr max ids 0 + 1"

text \<open>\<^verbatim>\<open>db.session.get(Model, key)\<close>: the row with that primary key, or \<^verbatim>\<open>None\<close>.\<close>

definition get_user :: "database \<Rightarrow> int \<Rightarrow> user option" where
  "get_user db k = find (\<lambda>u. u_id u = k) (users db)"

definition get_post :: "database \<Rightarrow> int \<Rightarrow> post option" where
  "get_post db k = find (\<lambda>p. p_id p = k) (posts db)"

definition get_comment :: "database \<Rightarrow> int \<Rightarrow> comment option" where
  "get_comment db k = find (\<lambda>c. c_id c = k) (comments db)"

text \<open>
  \<^verbatim>\<open>db.session.add(row); db.session.commit()\<close>. The INSERT fails with
  \<^verbatim>\<open>IntegrityError\<close> when the unique column (\<^verbatim>\<open>User.email\<close>, line 45;
  \<^verbatim>\<open>Post.title\<close>, line 59) already holds the value; the transaction is then rolled
  back and the table is as before. The key of the new row is returned with the store.
\<close>

definition add_user :: "string \<Rightarrow> string \<Rightarrow> string \<Rightarrow> int \<Rightarrow> database \<Rightarrow> error + (user \<times> database)" where
  "add_user email password name classification db =
     (if filter (\<lambda>u. u_email u = email) (users db) \<noteq> [] then Inl IntegrityError
      else (let new_user = \<lparr>u_id = next_id (map u_id (users db)), u_email = email,
                              u_password = password, u_name = name,
                              u_classification = classification\<rparr>
            in Inr (new_user, db\<lparr>users := users db @ [new_user]\<rparr>)))"

text \<open>
  The \<^verbatim>\<open>date\<close> column is not set by \<^verbatim>\<open>create_post\<close>, so the INSERT takes the
  column's \<^verbatim>\<open>default=\<close> (line 64), here the argument \<open>date_default\<close>.
\<close>

definition add_post :: "date \<Rightarrow> string \<Rightarrow> string \<Rightarrow> string \<Rightarrow> string \<Rightarrow> string \<Rightarrow> database \<Rightarrow> error + (post \<times> database)" where
  "add_post date_default title subtitle img_url author body db =
     (if filter (\<lambda>p. p_title p = title) (posts db) \<noteq> [] then Inl IntegrityError
      else (let new_post = \<lparr>p_id = next_id (map p_id (posts db)), p_title = title,
                              p_subtitle = subtitle, p_img_url = img_url,
                              p_author = author, p_body = body, p_date = date_default\<rparr>
            in Inr (new_post, db\<lparr>posts := posts db @ [new_post]\<rparr>)))"

definition add_comment :: "int \<Rightarrow> int \<Rightarrow> string \<Rightarrow> bool \<Rightarrow> database \<Rightarrow> comment \<times> database" where
  "add_comment user_id post_id body approved db =
     (let new_comment = \<lparr>c_id = next_id (map c_id (comments db)), c_user_id = user_id,
                           c_post_id = post_id, c_body = body, c_approved = approved\<rparr>
      in (new_comment, db\<lparr>comments := comments db @ [new_comment]\<rparr>))"

text \<open>
  Committing a changed \<^verbatim>\<open>Post\<close> object: \<^verbatim>\<open>UPDATE posts SET ... WHERE id = ?\<close>. It
  fails with \<^verbatim>\<open>IntegrityError\<close> when another row already has the new title.
\<close>

definition update_post :: "post \<Rightarrow> database \<Rightarrow> error + database" where
  "update_post row db =
     (if filter (\<lambda>q. p_id q \<noteq> p_id row \<and> p_title q = p_title row) (posts db) \<noteq> []
      then Inl IntegrityError
      else Inr (db\<lparr>posts := map (\<lambda>q. if p_id q = p_id row then row else q) (posts db)\<rparr>))"

text \<open>Committing a changed \<^verbatim>\<open>Comment\<close> object: \<^verbatim>\<open>UPDATE comments SET ... WHERE id = ?\<close>.\<close>

definition update_comment :: "comment \<Rightarrow> database \<Rightarrow> database" where
  "update_comment row db =
     db\<lparr>comments := map (\<lambda>c. if c_id c = c_id row then row else c) (comments db)\<rparr>"

text \<open>
  \<^verbatim>\<open>db.session.delete(post)\<close>: the relationship \<^verbatim>\<open>Post.comments\<close> has
  \<^verbatim>\<open>cascade="all,delete"\<close> (line 65), so the session deletes the comments whose
  \<^verbatim>\<open>post_id\<close> is the post's key together with the post, in one commit.
\<close>

definition delete_post_row :: "post \<Rightarrow> database \<Rightarrow> database" where
  "delete_post_row row db =
     db\<lparr>posts := filter (\<lambda>p. p_id p \<noteq> p_id row) (posts db),
        comments := filter (\<lambda>c. c_post_id c \<noteq> p_id row) (comments db)\<rparr>"

definition delete_comment_row :: "comment \<Rightarrow> database \<Rightarrow> database" where
  "delete_comment_row row db =
     db\<lparr>comments := filter (\<lambda>c. c_id c \<noteq> c_id row) (comments db)\<rparr>"

text \<open>
  \<^verbatim>\<open>order_by(col.desc())\<close>: the rows by descending key. SQL leaves the order of rows
  with equal keys open; here they keep the order of the table.
\<close>

definition order_by_desc :: "('a \<Rightarrow> 'k::linorder) \<Rightarrow> 'a list \<Rightarrow> 'a list" where
  "order_by_desc f xs = rev (sort_key f (rev xs))"

text \<open>
  werkzeug's salted digest is library code: \<open>generate_password_hash\<close> stands for it as
  a tagging of the password, and \<open>check_password_hash\<close> accepts the password the digest
  was made from and no other.
\<close>

definition generate_password_hash :: "string \<Rightarrow> string" where
  "generate_password_hash password = ''pbkdf2:sha256$'' @ password"

definition check_password_hash :: "string \<Rightarrow> string \<Rightarrow> bool" where
  "check_password_hash pwhash password = (pwhash = generate_password_hash password)"

section \<open>Requests and responses\<close>

datatype http_method = GET | POST

text \<open>
  What a handler reads from Flask's request context: \<^verbatim>\<open>current_user\<close> (\<open>None\<close> for
  the anonymous user, whose \<^verbatim>\<open>is_authenticated\<close> is false), the method, the submitted
  form fields, the verdict of the wtforms validators that forms.py attaches to the
  fields (library code, with the CSRF check of \<^verbatim>\<open>FlaskForm\<close>), the date that
  \<^verbatim>\<open>datetime.datetime.now().date()\<close> gives during the request, and whether the SMTP
  calls of \<^verbatim>\<open>contact\<close> go through.
\<close>

record request =
  current_user :: "user option"
  req_method :: http_method
  form_validates :: bool
  form_name :: string
  form_email :: string
  form_password :: string
  form_title :: string
  form_subtitle :: string
  form_img_url :: string
  form_author :: string
  form_body :: string
  form_comment :: string
  now_date :: date
  smtp_ok :: bool

text \<open>\<^verbatim>\<open>FlaskForm.validate_on_submit\<close>: the request is a submission and the form validates.\<close>

definition validate_on_submit :: "request \<Rightarrow> bool" where
  "validate_on_submit req = (req_method req = POST \<and> form_validates req)"

text \<open>
  The two messages imported from the module \<^verbatim>\<open>constants\<close> (line 8) are told apart by
  their names.
\<close>

datatype error_message = UNAUTHORIZED_ERROR_MSG | UNREACHABLE_ERROR_MSG

datatype endpoint = Home_page | Login_page | Show_post int

text \<open>
  A response is a redirect to \<^verbatim>\<open>url_for(endpoint)\<close> or a rendered template with the
  arguments the handler passes to it. For the form pages the argument is the list of
  messages the handler itself appended to a field's errors.
\<close>

datatype response =
    Redirect endpoint
  | Error_html error_message
  | Home_html "post list"
  | Post_html post "comment list"
  | About_html
  | Contact_html bool
  | Create_html "string list"
  | Edit_html
  | Comment_html
  | Register_html "string list"
  | Login_html "string list"

type_synonym outcome = "(error + response) \<times> database"

section \<open>Classification level (server.py, lines 90-99)\<close>

text \<open>
  Modelled from the spec: the module \<^verbatim>\<open>constants\<close> is not among the sources. The spec
  gives level 0 to guests, as does the comment on line 48 of server.py.
\<close>

definition GUEST_CLASSIFICATION :: int where
  "GUEST_CLASSIFICATION = 0"

definition get_classification_level :: "user option \<Rightarrow> int" where
  "get_classification_level cu =
     (case cu of Some u \<Rightarrow> u_classification u | None \<Rightarrow> GUEST_CLASSIFICATION)"

section \<open>Module body: table creation and admin bootstrap (server.py, lines 64, 80-88)\<close>

record environ =
  ADMIN_EMAIL :: "string option"
  ADMIN_PASSWORD :: "string option"
  ADMIN_NAME :: "string option"

text \<open>
  Importing the module on day \<open>today\<close> against the store \<open>db\<close>. The class body of
  \<^verbatim>\<open>Post\<close> evaluates \<^verbatim>\<open>datetime.datetime.now().date()\<close> once and hands the value to
  \<^verbatim>\<open>mapped_column(default=...)\<close>; \<^verbatim>\<open>db.create_all()\<close> creates the missing tables and
  leaves existing rows alone; then the admin row is added and committed with no check
  and no handler around it. \<^verbatim>\<open>generate_password_hash(None)\<close> raises before the row is
  built; \<^verbatim>\<open>email\<close> and \<^verbatim>\<open>name\<close> are \<^verbatim>\<open>Mapped[str]\<close>, hence NOT NULL.
  The result is the column default and the store the process then serves, or the
  exception that ends the import.
\<close>

definition startup :: "environ \<Rightarrow> date \<Rightarrow> database \<Rightarrow> error + (date \<times> database)" where
  "startup env today db =
     (let date_default = today in
      case ADMIN_PASSWORD env of
        None \<Rightarrow> Inl AttributeError
      | Some password \<Rightarrow>
          (case (ADMIN_EMAIL env, ADMIN_NAME env) of
             (Some email, Some name) \<Rightarrow>
               (case add_user email (generate_password_hash password) name 2 db of
                  Inl e \<Rightarrow> Inl e
                | Inr (new_user, db') \<Rightarrow> Inr (date_default, db'))
           | _ \<Rightarrow> Inl IntegrityError))"

section \<open>Route handlers (server.py, lines 105-435)\<close>

definition register :: "request \<Rightarrow> database \<Rightarrow> outcome" where
  "register req db =
     (if current_user req \<noteq> None then (Inr (Redirect Home_page), db)
      else if validate_on_submit req then
        (case find (\<lambda>u. u_email u = form_email req) (users db) of
           None \<Rightarrow>
             (case add_user (form_email req) (generate_password_hash (form_password req))
                     (form_name req) 1 db of
                Inl e \<Rightarrow> (Inl e, db)
              | Inr (new_user, db') \<Rightarrow> (Inr (Redirect Home_page), db'))
         | Some user_found \<Rightarrow>
             (Inr (Register_html [''This email address already in use'']), db))
      else (Inr (Register_html []), db))"

definition login :: "request \<Rightarrow> database \<Rightarrow> outcome" where
  "login req db =
     (if current_user req \<noteq> None then (Inr (Redirect Home_page), db)
      else if validate_on_submit req then
        (case find (\<lambda>u. u_email u = form_email req) (users db) of
           Some user_found \<Rightarrow>
             (if check_password_hash (u_password user_found) (form_password req)
              then (Inr (Redirect Home_page), db)
              else (Inr (Login_html [''Incorrect password, Please try again'']), db))
         | None \<Rightarrow> (Inr (Login_html [''Email not found, Please try again'']), db))
      else (Inr (Login_html []), db))"

definition logout :: "request \<Rightarrow> database \<Rightarrow> outcome" where
  "logout req db =
     (if current_user req \<noteq> None then (Inr (Redirect Home_page), db)
      else (Inr (Redirect Login_page), db))"

definition home :: "request \<Rightarrow> database \<Rightarrow> outcome" where
  "home req db = (Inr (Home_html (sort_key p_id (posts db))), db)"

definition about :: "request \<Rightarrow> database \<Rightarrow> outcome" where
  "about req db = (Inr About_html, db)"

definition contact :: "request \<Rightarrow> database \<Rightarrow> outcome" where
  "contact req db =
     (if validate_on_submit req then (Inr (Contact_html (smtp_ok req)), db)
      else (Inr (Contact_html False), db))"

definition create_post :: "date \<Rightarrow> request \<Rightarrow> database \<Rightarrow> outcome" where
  "create_post date_default req db =
     (if get_classification_level (current_user req) < 2
      then (Inr (Error_html UNAUTHORIZED_ERROR_MSG), db)
      else if validate_on_submit req then
        (let matching_post = filter (\<lambda>p. p_title p = form_title req) (posts db) in
         if matching_post \<noteq> []
         then (Inr (Create_html [''A post with that title is already exist'']), db)
         else (case add_post date_default (form_title req) (form_subtitle req)
                      (form_img_url req) (form_author req) (form_body req) db of
                 Inl e \<Rightarrow> (Inl e, db)
               | Inr (new_post, db') \<Rightarrow> (Inr (Redirect (Show_post (p_id new_post))), db')))
      else (Inr (Create_html []), db))"

text \<open>The comment query of \<^verbatim>\<open>show_post\<close> (line 303).\<close>

definition list_comments :: "database \<Rightarrow> int \<Rightarrow> comment list" where
  "list_comments db post_id =
     order_by_desc c_approved (filter (\<lambda>c. c_post_id c = post_id) (comments db))"

definition show_post :: "int \<Rightarrow> request \<Rightarrow> database \<Rightarrow> outcome" where
  "show_post post_id req db =
     (let post_to_show = get_post db post_id;
          comments = list_comments db post_id
      in case post_to_show of
           Some p \<Rightarrow> (Inr (Post_html p comments), db)
         | None \<Rightarrow> (Inr (Error_html UNREACHABLE_ERROR_MSG), db))"

definition edit_post :: "int \<Rightarrow> request \<Rightarrow> database \<Rightarrow> outcome" where
  "edit_post post_id req db =
     (if get_classification_level (current_user req) < 2
      then (Inr (Error_html UNAUTHORIZED_ERROR_MSG), db)
      else case get_post db post_id of
        Some post_to_update \<Rightarrow>
          (if validate_on_submit req then
             (case update_post (post_to_update\<lparr>p_title := form_title req,
                                    p_subtitle := form_subtitle req,
                                    p_img_url := form_img_url req,
                                    p_author := form_author req,
                                    p_body := form_body req,
                                    p_date := now_date req\<rparr>) db of
                Inl e \<Rightarrow> (Inl e, db)
              | Inr db' \<Rightarrow> (Inr (Redirect (Show_post post_id)), db'))
           else (Inr Edit_html, db))
      | None \<Rightarrow> (Inr (Error_html UNREACHABLE_ERROR_MSG), db))"

definition delete_post :: "int \<Rightarrow> request \<Rightarrow> database \<Rightarrow> outcome" where
  "delete_post post_id req db =
     (if get_classification_level (current_user req) < 2
      then (Inr (Error_html UNAUTHORIZED_ERROR_MSG), db)
      else case get_post db post_id of
        Some post_to_delete \<Rightarrow> (Inr (Redirect Home_page), delete_post_row post_to_delete db)
      | None \<Rightarrow> (Inr (Error_html UNREACHABLE_ERROR_MSG), db))"

text \<open>
  In \<^verbatim>\<open>comment_post\<close> the new row takes its \<^verbatim>\<open>user_id\<close> from \<^verbatim>\<open>current_user\<close> and its
  \<^verbatim>\<open>post_id\<close> from the post found. The anonymous user is no mapped instance, so
  assigning it to the relationship raises.
\<close>

definition comment_post :: "int \<Rightarrow> request \<Rightarrow> database \<Rightarrow> outcome" where
  "comment_post post_id req db =
     (if get_classification_level (current_user req) < 1
      then (Inr (Error_html UNAUTHORIZED_ERROR_MSG), db)
      else case get_post db post_id of
        Some post_to_comment \<Rightarrow>
          (if validate_on_submit req then
             (case current_user req of
                None \<Rightarrow> (Inl AttributeError, db)
              | Some u \<Rightarrow>
                  (Inr (Redirect (Show_post post_id)),
                   snd (add_comment (u_id u) (p_id post_to_comment) (form_comment req) False db)))
           else (Inr Comment_html, db))
      | None \<Rightarrow> (Inr (Error_html UNREACHABLE_ERROR_MSG), db))"

definition approve_comment :: "int \<Rightarrow> request \<Rightarrow> database \<Rightarrow> outcome" where
  "approve_comment comment_id req db =
     (if get_classification_level (current_user req) < 2
      then (Inr (Error_html UNAUTHORIZED_ERROR_MSG), db)
      else case get_comment db comment_id of
        Some comment_to_approve \<Rightarrow>
          (Inr (Redirect (Show_post (c_post_id comment_to_approve))),
           update_comment (comment_to_approve\<lparr>c_approved := True\<rparr>) db)
      | None \<Rightarrow> (Inr (Error_html UNREACHABLE_ERROR_MSG), db))"

definition delete_comment :: "int \<Rightarrow> request \<Rightarrow> database \<Rightarrow> outcome" where
  "delete_comment comment_id req db =
     (if get_classification_level (current_user req) < 2
      then (Inr (Error_html UNAUTHORIZED_ERROR_MSG), db)
      else case get_comment db comment_id of
        Some comment_to_delete \<Rightarrow>
          (let temp_post_id = c_post_id comment_to_delete
           in (Inr (Redirect (Show_post temp_post_id)), delete_comment_row comment_to_delete db))
      | None \<Rightarrow> (Inr (Error_html UNREACHABLE_ERROR_MSG), db))"

text \<open>
  The routes of the application (the \<^verbatim>\<open>@app.route\<close> decorators) and the handler each one
  is bound to. \<open>date_default\<close> is the column default fixed when the module was imported.
\<close>

datatype route =
    Register_route
  | Login_route
  | Logout_route
  | Home_route
  | About_route
  | Contact_route
  | Create_route
  | Post_route int
  | Edit_route int
  | Delete_route int
  | Comment_route int
  | Approve_comment_route int
  | Delete_comment_route int

fun dispatch :: "date \<Rightarrow> route \<Rightarrow> request \<Rightarrow> database \<Rightarrow> outcome" where
  "dispatch date_default Register_route = register"
| "dispatch date_default Login_route = login"
| "dispatch date_default Logout_route = logout"
| "dispatch date_default Home_route = home"
| "dispatch date_default About_route = about"
| "dispatch date_default Contact_route = contact"
| "dispatch date_default Create_route = create_post date_default"
| "dispatch date_default (Post_route post_id) = show_post post_id"
| "dispatch date_default (Edit_route post_id) = edit_post post_id"
| "dispatch date_default (Delete_route post_id) = delete_post post_id"
| "dispatch date_default (Comment_route post_id) = comment_post post_id"
| "dispatch date_default (Approve_comment_route comment_id) = approve_comment comment_id"
| "dispatch date_default (Delete_comment_route comment_id) = delete_comment comment_id"

section \<open>Derived notions used by the properties\<close>

text \<open>
  What the primary keys and the \<^verbatim>\<open>unique=True\<close> columns guarantee of every store:
  no two rows of a table share a key, no two users an email, no two posts a title.
\<close>

definition db_ok :: "database \<Rightarrow> bool" where
  "db_ok db =
     (distinct (map u_id (users db)) \<and> distinct (map u_email (users db)) \<and>
      distinct (map p_id (posts db)) \<and> distinct (map p_title (posts db)) \<and>
      distinct (map c_id (comments db)))"

text \<open>A handler refused the caller: it rendered error.html with the unauthorized message.\<close>

definition unauthorized :: "outcome \<Rightarrow> bool" where
  "unauthorized out = (fst out = Inr (Error_html UNAUTHORIZED_ERROR_MSG))"

text \<open>
  The two orders a comment listing can have: rows with \<^verbatim>\<open>approved\<close> false all before
  the rows with \<^verbatim>\<open>approved\<close> true, or all after them.
\<close>

definition unapproved_first :: "comment list \<Rightarrow> bool" where
  "unapproved_first cs = (cs = filter (\<lambda>c. \<not> c_approved c) cs @ filter c_approved cs)"

definition approved_first :: "comment list \<Rightarrow> bool" where
  "approved_first cs = (cs = filter c_approved cs @ filter (\<lambda>c. \<not> c_approved c) cs)"

text \<open>Every comment of the store belongs to a post of the store.\<close>

definition no_orphans :: "database \<Rightarrow> bool" where
  "no_orphans db = (filter (\<lambda>c. get_post db (c_post_id c) = None) (comments db) = [])"

section \<open>Sample data\<close>

definition sample_env :: environ where
  "sample_env = \<lparr>ADMIN_EMAIL = Some ''admin@blog.org'', ADMIN_PASSWORD = Some ''secret'',
                  ADMIN_NAME = Some ''Hadar''\<rparr>"

definition admin :: user where
  "admin = \<lparr>u_id = 1, u_email = ''admin@blog.org'',
            u_password = generate_password_hash ''secret'', u_name = ''Hadar'',
            u_classification = 2\<rparr>"

definition member :: user where
  "member = \<lparr>u_id = 2, u_email = ''a@x.com'',
             u_password = generate_password_hash ''pw123456'', u_name = ''Ann'',
             u_classification = 1\<rparr>"

definition hello_post :: post where
  "hello_post = \<lparr>p_id = 1, p_title = ''Hello'', p_subtitle = ''First post'',
                 p_img_url = ''https://blog.org/hello.png'', p_author = ''Hadar'',
                 p_body = ''Hello, world'', p_date = 0\<rparr>"

definition news_post :: post where
  "news_post = \<lparr>p_id = 2, p_title = ''News'', p_subtitle = ''Second post'',
                p_img_url = ''https://blog.org/news.png'', p_author = ''Hadar'',
                p_body = ''Some news'', p_date = 0\<rparr>"

definition pending_comment :: comment where
  "pending_comment = \<lparr>c_id = 1, c_user_id = 2, c_post_id = 1, c_body = ''First!'',
                      c_approved = False\<rparr>"

definition approved_comment :: comment where
  "approved_comment = \<lparr>c_id = 2, c_user_id = 2, c_post_id = 1, c_body = ''Nice post'',
                       c_approved = True\<rparr>"

definition news_comment :: comment where
  "news_comment = \<lparr>c_id = 3, c_user_id = 2, c_post_id = 2, c_body = ''Thanks'',
                   c_approved = False\<rparr>"

definition sample_db :: database where
  "sample_db = \<lparr>users = [admin, member], posts = [hello_post, news_post],
                 comments = [pending_comment, approved_comment, news_comment]\<rparr>"

text \<open>A GET request of a guest on day 1, and a valid form submission of the admin.\<close>

definition guest_request :: request where
  "guest_request = \<lparr>current_user = None, req_method = GET, form_validates = False,
     form_name = [], form_email = [], form_password = [], form_title = [],
     form_subtitle = [], form_img_url = [], form_author = [], form_body = [],
     form_comment = [], now_date = 1, smtp_ok = False\<rparr>"

definition admin_request :: request where
  "admin_request = \<lparr>current_user = Some admin, req_method = POST, form_validates = True,
     form_name = [], form_email = [], form_password = [], form_title = ''Hello'',
     form_subtitle = ''Again'', form_img_url = ''https://blog.org/again.png'',
     form_author = ''Hadar'', form_body = ''Hello again'',
     form_comment = [], now_date = 1, smtp_ok = False\<rparr>"

section \<open>Facts about the store\<close>

lemma foldr_max_ge: "x \<in> set ids \<Longrightarrow> x \<le> foldr max ids (b::int)"
  by (induction ids) auto

lemma next_id_fresh: "next_id ids \<notin> set ids"
  using foldr_max_ge [of "next_id ids" ids 0] by (auto simp: next_id_def)

lemma find_None_filter: "find P xs = None \<longleftrightarrow> filter P xs = []"
  by (induction xs) auto

lemma find_Some_holds: "find P xs = Some x \<Longrightarrow> P x \<and> x \<in> set xs"
  by (induction xs) (auto split: if_splits)

lemma distinct_map_head:
  "distinct (map f (a # xs)) \<Longrightarrow> \<forall>q\<in>set xs. f q \<noteq> f a"
  by (metis distinct.simps(2) image_eqI list.simps(9) list.set_map)

lemma map_update_absent:
  "\<forall>q\<in>set xs. k q \<noteq> i \<Longrightarrow> map (\<lambda>q. if k q = i then row else q) xs = xs"
  by (induction xs) auto

lemma distinct_map_update:
  assumes "distinct (map k xs)" "distinct (map t xs)"
    and "filter (\<lambda>q. k q \<noteq> i \<and> t q = t row) xs = []"
  shows "distinct (map t (map (\<lambda>q. if k q = i then row else q) xs))"
  using assms
proof (induction xs)
  case Nil
  then show ?case by simp
next
  case (Cons a xs)
  from Cons.prems(3) have tl: "filter (\<lambda>q. k q \<noteq> i \<and> t q = t row) xs = []"
    by (simp split: if_splits)
  then have others: "\<forall>q\<in>set xs. k q \<noteq> i \<longrightarrow> t q \<noteq> t row"
    by (auto simp: filter_empty_conv)
  show ?case
  proof (cases "k a = i")
    case True
    with distinct_map_head [OF Cons.prems(1)] have absent: "\<forall>q\<in>set xs. k q \<noteq> i"
      by simp
    with others have "t row \<notin> t ` set xs" by force
    with absent True Cons.prems(2) show ?thesis
      by (simp add: map_update_absent)
  next
    case False
    with Cons.prems(3) have ne: "t a \<noteq> t row" by (simp split: if_splits)
    from Cons tl have ih: "distinct (map t (map (\<lambda>q. if k q = i then row else q) xs))"
      by simp
    from distinct_map_head [OF Cons.prems(2)] have "\<forall>q\<in>set xs. t q \<noteq> t a" .
    with ne have "\<forall>q\<in>set xs. t a \<noteq> t (if k q = i then row else q)"
      by metis
    then have "t a \<notin> set (map t (map (\<lambda>q. if k q = i then row else q) xs))"
      by (induction xs) auto
    with ih False show ?thesis by simp
  qed
qed

lemma distinct_key_update:
  assumes "distinct (map k xs)" "k row = i"
  shows "distinct (map k (map (\<lambda>q. if k q = i then row else q) xs))"
proof -
  have "map k (map (\<lambda>q. if k q = i then row else q) xs) = map k xs"
    using assms(2) by (induction xs) auto
  with assms(1) show ?thesis by metis
qed

lemma map_update_same:
  assumes "distinct (map k xs)" "x \<in> set xs"
  shows "map (\<lambda>q. if k q = k x then x else q) xs = xs"
  using assms
proof (induction xs)
  case Nil
  then show ?case by simp
next
  case (Cons a xs)
  show ?case
  proof (cases "x = a")
    case True
    with distinct_map_head [OF Cons.prems(1)] have "\<forall>q\<in>set xs. k q \<noteq> k x" by simp
    with True show ?thesis by (simp add: map_update_absent)
  next
    case False
    with Cons.prems have "x \<in> set xs" "k a \<noteq> k x" by force+
    with Cons show ?thesis by simp
  qed
qed

lemma unique_count:
  assumes "distinct (map t xs)" "x \<in> set xs"
  shows "length (filter (\<lambda>q. t q = t x) xs) = 1"
  using assms
proof (induction xs)
  case Nil
  then show ?case by simp
next
  case (Cons a xs)
  show ?case
  proof (cases "x = a")
    case True
    with distinct_map_head [OF Cons.prems(1)] have "\<forall>q\<in>set xs. t q \<noteq> t x" by simp
    then have "filter (\<lambda>q. t q = t x) xs = []"
      by (simp add: filter_empty_conv)
    with True show ?thesis by simp
  next
    case False
    with Cons.prems have "x \<in> set xs" "t a \<noteq> t x" by force+
    with Cons show ?thesis by simp
  qed
qed

lemma find_map_update:
  assumes "k row = i"
  shows "find (\<lambda>q. k q = j) (map (\<lambda>q. if k q = i then row else q) xs) =
           (if j = i then map_option (\<lambda>_. row) (find (\<lambda>q. k q = i) xs)
            else find (\<lambda>q. k q = j) xs)"
  using assms by (induction xs) auto

lemma find_filter_keep:
  "find P xs = Some x \<Longrightarrow> Q x \<Longrightarrow> find P (filter Q xs) = Some x"
  by (induction xs) (auto split: if_splits)

lemma find_filter_drop:
  assumes "distinct (map k xs)" "find (\<lambda>q. k q = j) xs = Some x" "\<not> Q x"
  shows "find (\<lambda>q. k q = j) (filter Q xs) = None"
proof -
  from assms(2) have x: "k x = j" "x \<in> set xs" by (auto dest: find_Some_holds)
  have "\<forall>q\<in>set xs. k q = j \<longrightarrow> q = x"
    using assms(1) x by (auto simp: distinct_map dest: inj_onD)
  with assms(3) have "filter (\<lambda>q. k q = j) (filter Q xs) = []"
    by (auto simp: filter_empty_conv)
  then show ?thesis by (simp add: find_None_filter)
qed

lemma find_append_keep:
  "find P xs = Some x \<Longrightarrow> find P (xs @ ys) = Some x"
  by (induction xs) (auto split: if_splits)

lemma get_comment_update:
  "get_comment (update_comment row db) j =
     (if j = c_id row then map_option (\<lambda>_. row) (get_comment db j) else get_comment db j)"
  by (simp add: get_comment_def update_comment_def find_map_update [where k = c_id and row = row])

lemma update_comment_twice:
  "update_comment row (update_comment row db) = update_comment row db"
  by (simp add: update_comment_def comp_def cong: map_cong)

lemma sorted_bool_split:
  fixes f :: "'a \<Rightarrow> bool"
  assumes "sorted (map f s)"
  shows "s = filter (\<lambda>x. f x = False) s @ filter (\<lambda>x. f x = True) s"
  using assms
proof (induction s)
  case Nil
  then show ?case by simp
next
  case (Cons a s)
  then have ih: "s = filter (\<lambda>x. f x = False) s @ filter (\<lambda>x. f x = True) s"
    and le: "\<forall>x\<in>set s. f a \<le> f x"
    by simp_all
  show ?case
  proof (cases "f a")
    case True
    with le have "\<forall>x\<in>set s. f x" by simp
    then have "filter (\<lambda>x. f x = False) s = []" "filter (\<lambda>x. f x = True) s = s"
      by (simp_all add: filter_empty_conv)
    with True show ?thesis by simp
  next
    case False
    with ih show ?thesis by simp
  qed
qed

lemma order_by_desc_bool:
  fixes f :: "'a \<Rightarrow> bool"
  shows "order_by_desc f xs = filter f xs @ filter (\<lambda>x. \<not> f x) xs"
proof -
  let ?s = "sort_key f (rev xs)"
  have "?s = filter (\<lambda>x. f x = False) ?s @ filter (\<lambda>x. f x = True) ?s"
    by (rule sorted_bool_split) simp
  also have "\<dots> = filter (\<lambda>x. f x = False) (rev xs) @ filter (\<lambda>x. f x = True) (rev xs)"
    by (simp only: sort_key_stable)
  finally have "rev ?s = filter f xs @ filter (\<lambda>x. \<not> f x) xs"
    by (simp add: rev_filter)
  then show ?thesis by (simp add: order_by_desc_def)
qed

subsection \<open>The constraints hold of every store the application produces\<close>

lemma db_ok_empty: "db_ok empty_db"
  by (simp add: db_ok_def empty_db_def)

lemma db_ok_add_user:
  assumes "db_ok db" "add_user email password name classification db = Inr (u, db')"
  shows "db_ok db'"
proof -
  from assms(2) have none: "filter (\<lambda>q. u_email q = email) (users db) = []"
    and db': "db' = db\<lparr>users := users db @
        [\<lparr>u_id = next_id (map u_id (users db)), u_email = email, u_password = password,
          u_name = name, u_classification = classification\<rparr>]\<rparr>"
    by (auto simp: add_user_def Let_def split: if_splits)
  from none have "email \<notin> set (map u_email (users db))"
    by (auto simp: filter_empty_conv)
  with assms(1) next_id_fresh [of "map u_id (users db)"] show ?thesis
    unfolding db' db_ok_def by simp
qed

lemma db_ok_add_post:
  assumes "db_ok db" "add_post d title subtitle img_url author body db = Inr (p, db')"
  shows "db_ok db'"
proof -
  from assms(2) have none: "filter (\<lambda>q. p_title q = title) (posts db) = []"
    and db': "db' = db\<lparr>posts := posts db @
        [\<lparr>p_id = next_id (map p_id (posts db)), p_title = title, p_subtitle = subtitle,
          p_img_url = img_url, p_author = author, p_body = body, p_date = d\<rparr>]\<rparr>"
    by (auto simp: add_post_def Let_def split: if_splits)
  from none have "title \<notin> set (map p_title (posts db))"
    by (auto simp: filter_empty_conv)
  with assms(1) next_id_fresh [of "map p_id (posts db)"] show ?thesis
    unfolding db' db_ok_def by simp
qed

lemma db_ok_add_comment:
  assumes "db_ok db"
  shows "db_ok (snd (add_comment user_id post_id body approved db))"
  using assms next_id_fresh [of "map c_id (comments db)"]
  by (simp add: add_comment_def Let_def db_ok_def)

lemma db_ok_update_post:
  assumes "db_ok db" "update_post row db = Inr db'"
  shows "db_ok db'"
proof -
  from assms(2) have none:
      "filter (\<lambda>q. p_id q \<noteq> p_id row \<and> p_title q = p_title row) (posts db) = []"
    and db': "db' = db\<lparr>posts := map (\<lambda>q. if p_id q = p_id row then row else q) (posts db)\<rparr>"
    by (auto simp: update_post_def split: if_splits)
  from assms(1) have d: "distinct (map p_id (posts db))" "distinct (map p_title (posts db))"
    by (simp_all add: db_ok_def)
  from distinct_key_update [OF d(1) refl, of row] distinct_map_update [OF d none] assms(1)
  show ?thesis unfolding db' db_ok_def by simp
qed

lemma db_ok_update_comment:
  assumes "db_ok db"
  shows "db_ok (update_comment row db)"
proof -
  from assms have "distinct (map c_id (comments db))" by (simp add: db_ok_def)
  from distinct_key_update [OF this refl, of row] assms show ?thesis
    by (simp add: update_comment_def db_ok_def)
qed

lemma db_ok_delete_post_row: "db_ok db \<Longrightarrow> db_ok (delete_post_row row db)"
  by (simp add: delete_post_row_def db_ok_def distinct_map_filter)

lemma db_ok_delete_comment_row: "db_ok db \<Longrightarrow> db_ok (delete_comment_row row db)"
  by (simp add: delete_comment_row_def db_ok_def distinct_map_filter)

lemma db_ok_startup:
  assumes "db_ok db" "startup env today db = Inr (d, db')"
  shows "db_ok db'"
  using assms
  by (auto simp: startup_def Let_def split: option.splits sum.splits prod.splits
      dest: db_ok_add_user)

lemma db_ok_dispatch:
  assumes "db_ok db"
  shows "db_ok (snd (dispatch d r req db))"
proof (cases r)
  case Register_route
  with assms show ?thesis
    by (auto simp: register_def split: option.splits sum.splits dest: db_ok_add_user)
next
  case Create_route
  with assms show ?thesis
    by (auto simp: create_post_def Let_def split: option.splits sum.splits dest: db_ok_add_post)
next
  case (Edit_route k)
  with assms show ?thesis
    by (auto simp: edit_post_def split: option.splits sum.splits dest: db_ok_update_post)
next
  case (Delete_route k)
  with assms show ?thesis
    by (auto simp: delete_post_def db_ok_delete_post_row split: option.splits)
next
  case (Comment_route k)
  with assms show ?thesis
    by (auto simp: comment_post_def db_ok_add_comment split: option.splits)
next
  case (Approve_comment_route k)
  with assms show ?thesis
    by (auto simp: approve_comment_def db_ok_update_comment split: option.splits)
next
  case (Delete_comment_route k)
  with assms show ?thesis
    by (auto simp: delete_comment_def Let_def db_ok_delete_comment_row split: option.splits)
qed (use assms in \<open>simp_all add: login_def logout_def home_def about_def contact_def
      show_post_def Let_def split: option.splits\<close>)

lemma db_ok_sample: "db_ok sample_db"
  by (simp add: db_ok_def sample_db_def admin_def member_def hello_post_def news_post_def
      pending_comment_def approved_comment_def news_comment_def)

subsection \<open>No request and no start of the process orphans a comment\<close>

lemma no_orphans_iff:
  "no_orphans db \<longleftrightarrow> (\<forall>c\<in>set (comments db). get_post db (c_post_id c) \<noteq> None)"
  by (auto simp: no_orphans_def filter_empty_conv)

lemma find_append_found:
  "find P xs \<noteq> None \<Longrightarrow> find P (xs @ ys) \<noteq> None"
  by (induction xs) auto

lemma find_map_update_found:
  assumes "k row = i" "find (\<lambda>q. k q = j) xs \<noteq> None"
  shows "find (\<lambda>q. k q = j) (map (\<lambda>q. if k q = i then row else q) xs) \<noteq> None"
  using assms by (induction xs) auto

lemma no_orphans_add_post:
  assumes "no_orphans db"
    and "add_post d title subtitle img_url author body db = Inr (p, db')"
  shows "no_orphans db'"
proof -
  from assms(2) obtain row where "db' = db\<lparr>posts := posts db @ [row]\<rparr>"
    by (auto simp: add_post_def Let_def split: if_splits)
  with assms(1) show ?thesis
    unfolding no_orphans_iff get_post_def by (simp add: find_append_found)
qed

lemma no_orphans_update_post:
  assumes "no_orphans db" and "update_post row db = Inr db'"
  shows "no_orphans db'"
proof -
  from assms(2)
  have "db' = db\<lparr>posts := map (\<lambda>q. if p_id q = p_id row then row else q) (posts db)\<rparr>"
    by (auto simp: update_post_def split: if_splits)
  with assms(1) show ?thesis
    unfolding no_orphans_iff get_post_def by (simp add: find_map_update_found)
qed

lemma no_orphans_delete_post_row:
  assumes "no_orphans db"
  shows "no_orphans (delete_post_row row db)"
proof -
  have "get_post (delete_post_row row db) (c_post_id c) \<noteq> None"
    if c: "c \<in> set (comments db)" "c_post_id c \<noteq> p_id row" for c
  proof -
    from assms c(1) obtain p where p: "find (\<lambda>q. p_id q = c_post_id c) (posts db) = Some p"
      by (auto simp: no_orphans_iff get_post_def)
    then have "p_id p = c_post_id c" by (auto dest: find_Some_holds)
    with c(2) find_filter_keep [OF p, of "\<lambda>q. p_id q \<noteq> p_id row"] show ?thesis
      by (simp add: get_post_def delete_post_row_def)
  qed
  then show ?thesis by (auto simp: no_orphans_iff delete_post_row_def)
qed

lemma no_orphans_dispatch:
  assumes "no_orphans db"
  shows "no_orphans (snd (dispatch d r req db))"
proof (cases r)
  case Register_route
  with assms show ?thesis
    by (auto simp: register_def add_user_def Let_def no_orphans_iff get_post_def
        split: option.splits if_splits)
next
  case Create_route
  with assms show ?thesis
    by (auto simp: create_post_def Let_def split: sum.splits dest: no_orphans_add_post)
next
  case (Edit_route k)
  with assms show ?thesis
    by (auto simp: edit_post_def split: option.splits sum.splits dest: no_orphans_update_post)
next
  case (Delete_route k)
  with assms show ?thesis
    by (auto simp: delete_post_def no_orphans_delete_post_row split: option.splits)
next
  case (Comment_route k)
  show ?thesis
  proof (cases "get_post db k")
    case None
    with assms Comment_route show ?thesis by (simp add: comment_post_def)
  next
    case (Some p)
    then have "p_id p = k" by (auto simp: get_post_def dest: find_Some_holds)
    with assms Comment_route Some show ?thesis
      by (auto simp: comment_post_def add_comment_def Let_def no_orphans_iff get_post_def
          split: option.splits)
  qed
next
  case (Approve_comment_route k)
  show ?thesis
  proof (cases "get_comment db k")
    case None
    with assms Approve_comment_route show ?thesis by (simp add: approve_comment_def)
  next
    case (Some c)
    then have "c \<in> set (comments db)" by (auto simp: get_comment_def dest: find_Some_holds)
    with assms Approve_comment_route Some show ?thesis
      by (auto simp: approve_comment_def update_comment_def no_orphans_iff get_post_def)
  qed
next
  case (Delete_comment_route k)
  with assms show ?thesis
    by (auto simp: delete_comment_def Let_def delete_comment_row_def no_orphans_iff get_post_def
        split: option.splits)
qed (use assms in \<open>simp_all add: login_def logout_def home_def about_def contact_def
      show_post_def Let_def split: option.splits\<close>)

lemma startup_keeps_content:
  assumes "startup env today db = Inr (d, db')"
  shows "posts db' = posts db \<and> comments db' = comments db"
  using assms
  by (auto simp: startup_def add_user_def Let_def split: option.splits if_splits)

subsection \<open>Which handlers refuse which levels\<close>

lemma unauthorized_gated:
  "unauthorized (create_post d req db) = (get_classification_level (current_user req) < 2)"
  "unauthorized (edit_post k req db) = (get_classification_level (current_user req) < 2)"
  "unauthorized (delete_post k req db) = (get_classification_level (current_user req) < 2)"
  "unauthorized (comment_post k req db) = (get_classification_level (current_user req) < 1)"
  "unauthorized (approve_comment k req db) = (get_classification_level (current_user req) < 2)"
  "unauthorized (delete_comment k req db) = (get_classification_level (current_user req) < 2)"
  by (simp_all add: unauthorized_def create_post_def edit_post_def delete_post_def
      comment_post_def approve_comment_def delete_comment_def Let_def
      split: option.split sum.split prod.split)

lemma unauthorized_open:
  "\<not> unauthorized (register req db)"
  "\<not> unauthorized (login req db)"
  "\<not> unauthorized (logout req db)"
  "\<not> unauthorized (home req db)"
  "\<not> unauthorized (about req db)"
  "\<not> unauthorized (contact req db)"
  "\<not> unauthorized (show_post k req db)"
  by (simp_all add: unauthorized_def register_def login_def logout_def home_def about_def
      contact_def show_post_def Let_def split: option.split sum.split prod.split)

subsection \<open>Reading the order of a listing by position\<close>

lemma approved_first_nth:
  assumes "approved_first cs" "i < j" "j < length cs" "c_approved (cs ! j)"
  shows "c_approved (cs ! i)"
proof -
  let ?A = "filter c_approved cs" and ?U = "filter (\<lambda>c. \<not> c_approved c) cs"
  from assms(1) have cs: "cs = ?A @ ?U" by (simp add: approved_first_def)
  have "j < length ?A"
  proof (rule ccontr)
    assume "\<not> j < length ?A"
    with cs assms(3) have "cs ! j = ?U ! (j - length ?A)" "j - length ?A < length ?U"
      by (metis nth_append, metis length_append less_diff_conv2 not_le add.commute)
    then have "cs ! j \<in> set ?U" by (metis nth_mem)
    with assms(4) show False by simp
  qed
  with assms(2) have "i < length ?A" by simp
  with cs have "cs ! i = ?A ! i" by (metis nth_append)
  with \<open>i < length ?A\<close> have "cs ! i \<in> set ?A" by (metis nth_mem)
  then show ?thesis by simp
qed

section \<open>Properties\<close>

subsection \<open>C1: the comment listing of a post\<close>

lemma list_comments_sample:
  "list_comments sample_db 1 = [approved_comment, pending_comment]"
  by (simp add: list_comments_def order_by_desc_bool sample_db_def
      pending_comment_def approved_comment_def news_comment_def)

text \<open>
  The listing of post 1 in the sample store starts with the approved comment: the order
  "unapproved before approved" does not hold of it.
\<close>

theorem list_comments_unapproved_first_counterexample:
  "\<not> unapproved_first (list_comments sample_db 1)"
  by (simp add: unapproved_first_def list_comments_def order_by_desc_bool sample_db_def
      pending_comment_def approved_comment_def news_comment_def)

text \<open>
  C1, as the code has it. The comment query of \<^verbatim>\<open>show_post\<close> returns no comment of
  another post and every comment of the post asked for, and orders them by descending
  \<^verbatim>\<open>approved\<close>: the approved comments come first, the unapproved ones after them.
\<close>

theorem list_comments_approved_first:
  "filter (\<lambda>c. c_post_id c \<noteq> post_id) (list_comments db post_id) = [] \<and>
   set (list_comments db post_id) = set (filter (\<lambda>c. c_post_id c = post_id) (comments db)) \<and>
   approved_first (list_comments db post_id)"
  by (auto simp: list_comments_def order_by_desc_bool approved_first_def filter_empty_conv)

subsection \<open>C2: guests are refused before any lookup\<close>

text \<open>
  C2. A caller whose classification level is 0 is refused by every one of
  \<^verbatim>\<open>comment_post\<close>, \<^verbatim>\<open>create_post\<close>, \<^verbatim>\<open>edit_post\<close>, \<^verbatim>\<open>delete_post\<close>,
  \<^verbatim>\<open>approve_comment\<close> and \<^verbatim>\<open>delete_comment\<close>, whatever the target id and the
  request: the answer is the unauthorized page, never the unreachable page or a
  redirect, and the store is returned as it was, because the level is tested before
  the row is looked up.
\<close>

theorem guest_unauthorized:
  assumes "get_classification_level (current_user req) = 0"
  shows "comment_post post_id req db = (Inr (Error_html UNAUTHORIZED_ERROR_MSG), db) \<and>
         create_post date_default req db = (Inr (Error_html UNAUTHORIZED_ERROR_MSG), db) \<and>
         edit_post post_id req db = (Inr (Error_html UNAUTHORIZED_ERROR_MSG), db) \<and>
         delete_post post_id req db = (Inr (Error_html UNAUTHORIZED_ERROR_MSG), db) \<and>
         approve_comment comment_id req db = (Inr (Error_html UNAUTHORIZED_ERROR_MSG), db) \<and>
         delete_comment comment_id req db = (Inr (Error_html UNAUTHORIZED_ERROR_MSG), db)"
  using assms
  by (simp add: comment_post_def create_post_def edit_post_def delete_post_def
      approve_comment_def delete_comment_def)

theorem guest_unauthorized_witness:
  "get_classification_level (current_user guest_request) = 0 \<and>
   comment_post 999 guest_request sample_db = (Inr (Error_html UNAUTHORIZED_ERROR_MSG), sample_db) \<and>
   create_post 0 guest_request sample_db = (Inr (Error_html UNAUTHORIZED_ERROR_MSG), sample_db) \<and>
   edit_post 999 guest_request sample_db = (Inr (Error_html UNAUTHORIZED_ERROR_MSG), sample_db) \<and>
   delete_post 999 guest_request sample_db = (Inr (Error_html UNAUTHORIZED_ERROR_MSG), sample_db) \<and>
   approve_comment 777 guest_request sample_db = (Inr (Error_html UNAUTHORIZED_ERROR_MSG), sample_db) \<and>
   delete_comment 777 guest_request sample_db = (Inr (Error_html UNAUTHORIZED_ERROR_MSG), sample_db)"
proof -
  have level: "get_classification_level (current_user guest_request) = 0"
    by (simp add: guest_request_def get_classification_level_def GUEST_CLASSIFICATION_def)
  from guest_unauthorized [OF level, of 999 sample_db 0 777] level show ?thesis by simp
qed

subsection \<open>C3: creating a post under a title that exists\<close>

text \<open>
  C3. In a store that holds a post with title \<open>T\<close>, a valid submission of the create
  form by an admin with title \<open>T\<close> is answered by the create page with the message that
  the title exists; nothing is inserted, and the store still holds exactly one post
  with title \<open>T\<close>.
\<close>

theorem create_post_duplicate_title:
  assumes "db_ok db"
    and "p \<in> set (posts db)"
    and "2 \<le> get_classification_level (current_user req)"
    and "validate_on_submit req"
    and "form_title req = p_title p"
  shows "create_post date_default req db =
           (Inr (Create_html [''A post with that title is already exist'']), db) \<and>
         length (filter (\<lambda>q. p_title q = p_title p)
                   (posts (snd (create_post date_default req db)))) = 1"
proof -
  from assms(2,5) have "filter (\<lambda>q. p_title q = form_title req) (posts db) \<noteq> []"
    by (auto simp: filter_empty_conv)
  with assms(3,4) have out: "create_post date_default req db =
           (Inr (Create_html [''A post with that title is already exist'']), db)"
    by (simp add: create_post_def)
  from assms(1) have "distinct (map p_title (posts db))" by (simp add: db_ok_def)
  from unique_count [OF this assms(2)] out show ?thesis by simp
qed

theorem create_post_duplicate_title_witness:
  "db_ok sample_db \<and> hello_post \<in> set (posts sample_db) \<and>
   2 \<le> get_classification_level (current_user admin_request) \<and>
   validate_on_submit admin_request \<and>
   form_title admin_request = p_title hello_post \<and>
   create_post 0 admin_request sample_db =
     (Inr (Create_html [''A post with that title is already exist'']), sample_db) \<and>
   length (filter (\<lambda>q. p_title q = p_title hello_post)
             (posts (snd (create_post 0 admin_request sample_db)))) = 1"
proof -
  have member: "hello_post \<in> set (posts sample_db)"
    by (simp add: sample_db_def)
  have level: "2 \<le> get_classification_level (current_user admin_request)"
    by (simp add: admin_request_def admin_def get_classification_level_def)
  have valid: "validate_on_submit admin_request"
    by (simp add: admin_request_def validate_on_submit_def)
  have title: "form_title admin_request = p_title hello_post"
    by (simp add: admin_request_def hello_post_def)
  from create_post_duplicate_title [OF db_ok_sample member level valid title, of 0]
    db_ok_sample member level valid title
  show ?thesis by blast
qed

subsection \<open>C4: renaming a post into a title that exists\<close>

text \<open>
  C4. When an admin edits an existing post \<open>a\<close> and the submitted title is the title of
  another post of the store, the edit is not applied: a valid submission ends in the
  \<^verbatim>\<open>IntegrityError\<close> of the unique title column (a submission that does not validate
  shows the edit page again), and the store, with its unique titles, is as before.
\<close>

theorem edit_post_duplicate_title:
  assumes "2 \<le> get_classification_level (current_user req)"
    and "get_post db a = Some pa"
    and "pb \<in> set (posts db)"
    and "p_id pb \<noteq> a"
    and "form_title req = p_title pb"
  shows "fst (edit_post a req db) =
           (if validate_on_submit req then Inl IntegrityError else Inr Edit_html) \<and>
         snd (edit_post a req db) = db"
proof -
  from assms(2) have id: "p_id pa = a" by (auto simp: get_post_def dest: find_Some_holds)
  let ?row = "pa\<lparr>p_title := form_title req, p_subtitle := form_subtitle req,
                  p_img_url := form_img_url req, p_author := form_author req,
                  p_body := form_body req, p_date := now_date req\<rparr>"
  from assms(3,4,5) id
  have "filter (\<lambda>q. p_id q \<noteq> p_id ?row \<and> p_title q = p_title ?row) (posts db) \<noteq> []"
    by (auto simp: filter_empty_conv)
  then have "update_post ?row db = Inl IntegrityError" by (simp add: update_post_def)
  with assms(1,2) show ?thesis by (simp add: edit_post_def)
qed

theorem edit_post_duplicate_title_witness:
  "2 \<le> get_classification_level (current_user admin_request) \<and>
   get_post sample_db 2 = Some news_post \<and>
   hello_post \<in> set (posts sample_db) \<and> p_id hello_post \<noteq> 2 \<and>
   form_title admin_request = p_title hello_post \<and>
   validate_on_submit admin_request \<and>
   fst (edit_post 2 admin_request sample_db) = Inl IntegrityError \<and>
   snd (edit_post 2 admin_request sample_db) = sample_db"
proof -
  have level: "2 \<le> get_classification_level (current_user admin_request)"
    by (simp add: admin_request_def admin_def get_classification_level_def)
  have found: "get_post sample_db 2 = Some news_post"
    by (simp add: get_post_def sample_db_def hello_post_def news_post_def)
  have member: "hello_post \<in> set (posts sample_db)"
    by (simp add: sample_db_def)
  have other: "p_id hello_post \<noteq> 2"
    by (simp add: hello_post_def)
  have title: "form_title admin_request = p_title hello_post"
    by (simp add: admin_request_def hello_post_def)
  have valid: "validate_on_submit admin_request"
    by (simp add: admin_request_def validate_on_submit_def)
  from edit_post_duplicate_title [OF level found member other title]
    level found member other title valid
  show ?thesis by simp
qed

subsection \<open>C5: the date of a new post\<close>

text \<open>
  Whatever the day of the request, a post that \<^verbatim>\<open>create_post\<close> inserts carries the
  column default.
\<close>

lemma create_post_inserted:
  assumes "fst (create_post date_default req db) = Inr (Redirect (Show_post k))"
  shows "posts (snd (create_post date_default req db)) =
           posts db @ [\<lparr>p_id = k, p_title = form_title req, p_subtitle = form_subtitle req,
                        p_img_url = form_img_url req, p_author = form_author req,
                        p_body = form_body req, p_date = date_default\<rparr>]"
  using assms
  by (auto simp: create_post_def add_post_def Let_def split: if_splits)

text \<open>
  C5, at a failing input. The process is started on day 0 against an empty store; on
  day 1 the admin submits a valid create form. The post is inserted with date 0, the
  day the module was imported, not with the day of its creation.
\<close>

theorem create_post_date_is_import_date:
  "startup sample_env 0 empty_db = Inr (0, \<lparr>users = [admin], posts = [], comments = []\<rparr>) \<and>
   now_date admin_request = 1 \<and>
   create_post 0 admin_request \<lparr>users = [admin], posts = [], comments = []\<rparr> =
     (Inr (Redirect (Show_post 1)),
      \<lparr>users = [admin],
       posts = [\<lparr>p_id = 1, p_title = ''Hello'', p_subtitle = ''Again'',
                 p_img_url = ''https://blog.org/again.png'', p_author = ''Hadar'',
                 p_body = ''Hello again'', p_date = 0\<rparr>],
       comments = []\<rparr>)"
  by (simp add: startup_def sample_env_def empty_db_def add_user_def next_id_def admin_def
      create_post_def admin_request_def get_classification_level_def validate_on_submit_def
      add_post_def Let_def)

subsection \<open>C6: deleting a post deletes its comments\<close>

text \<open>
  C6. When an admin deletes an existing post, the handler redirects to the home page,
  the post can no longer be fetched, no comment with that \<^verbatim>\<open>post_id\<close> is left
  (however many there were), the comment listing of the post is empty, and the
  comments of other posts are exactly those that were there before.
\<close>

theorem delete_post_cascade:
  assumes "2 \<le> get_classification_level (current_user req)"
    and "get_post db post_id = Some p"
  shows "fst (delete_post post_id req db) = Inr (Redirect Home_page) \<and>
         get_post (snd (delete_post post_id req db)) post_id = None \<and>
         filter (\<lambda>c. c_post_id c = post_id) (comments (snd (delete_post post_id req db))) = [] \<and>
         list_comments (snd (delete_post post_id req db)) post_id = [] \<and>
         comments (snd (delete_post post_id req db)) =
           filter (\<lambda>c. c_post_id c \<noteq> post_id) (comments db)"
proof -
  from assms(2) have id: "p_id p = post_id"
    by (auto simp: get_post_def dest: find_Some_holds)
  from assms id have out: "delete_post post_id req db =
      (Inr (Redirect Home_page),
       db\<lparr>posts := filter (\<lambda>q. p_id q \<noteq> post_id) (posts db),
          comments := filter (\<lambda>c. c_post_id c \<noteq> post_id) (comments db)\<rparr>)"
    by (simp add: delete_post_def delete_post_row_def)
  show ?thesis
    unfolding out
    by (simp add: get_post_def find_None_filter list_comments_def order_by_desc_def)
qed

theorem delete_post_cascade_witness:
  "2 \<le> get_classification_level (current_user admin_request) \<and>
   get_post sample_db 1 = Some hello_post \<and>
   fst (delete_post 1 admin_request sample_db) = Inr (Redirect Home_page) \<and>
   get_post (snd (delete_post 1 admin_request sample_db)) 1 = None \<and>
   list_comments (snd (delete_post 1 admin_request sample_db)) 1 = [] \<and>
   comments (snd (delete_post 1 admin_request sample_db)) = [news_comment]"
proof -
  have level: "2 \<le> get_classification_level (current_user admin_request)"
    by (simp add: admin_request_def admin_def get_classification_level_def)
  have found: "get_post sample_db 1 = Some hello_post"
    by (simp add: get_post_def sample_db_def hello_post_def news_post_def)
  have "filter (\<lambda>c. c_post_id c \<noteq> 1) (comments sample_db) = [news_comment]"
    by (simp add: sample_db_def pending_comment_def approved_comment_def news_comment_def)
  with delete_post_cascade [OF level found] level found show ?thesis by simp
qed

subsection \<open>C7: a higher level is refused nothing a lower level is allowed\<close>

text \<open>
  C7. For every route of the application (viewing content, commenting, creating,
  editing and deleting posts, approving and deleting comments, and the account pages):
  if the handler does not refuse a caller of level \<open>L\<close>, it does not refuse a caller of
  level \<open>L + 1\<close>, whatever the rest of the two requests and the two stores.
\<close>

theorem authorization_monotonic:
  assumes "get_classification_level (current_user req') =
           get_classification_level (current_user req) + 1"
    and "\<not> unauthorized (dispatch d r req db)"
  shows "\<not> unauthorized (dispatch d' r req' db')"
  using assms by (cases r) (simp_all add: unauthorized_gated unauthorized_open)

text \<open>
  At the gate of \<^verbatim>\<open>comment_post\<close> (line 376): the guest is refused, the member is
  not, and the admin, one level above the member, is not either.
\<close>

theorem authorization_monotonic_witness:
  "get_classification_level (current_user (guest_request\<lparr>current_user := Some admin\<rparr>)) =
     get_classification_level (current_user (guest_request\<lparr>current_user := Some member\<rparr>)) + 1 \<and>
   unauthorized (dispatch 0 (Comment_route 1) guest_request sample_db) \<and>
   \<not> unauthorized (dispatch 0 (Comment_route 1) (guest_request\<lparr>current_user := Some member\<rparr>) sample_db) \<and>
   \<not> unauthorized (dispatch 0 (Comment_route 1) (guest_request\<lparr>current_user := Some admin\<rparr>) sample_db)"
proof -
  have step: "get_classification_level (current_user (guest_request\<lparr>current_user := Some admin\<rparr>)) =
     get_classification_level (current_user (guest_request\<lparr>current_user := Some member\<rparr>)) + 1"
    by (simp add: guest_request_def member_def admin_def get_classification_level_def)
  have refused: "unauthorized (dispatch 0 (Comment_route 1) guest_request sample_db)"
    by (simp add: unauthorized_def comment_post_def guest_request_def
        get_classification_level_def GUEST_CLASSIFICATION_def)
  have allowed: "\<not> unauthorized (dispatch 0 (Comment_route 1)
      (guest_request\<lparr>current_user := Some member\<rparr>) sample_db)"
    by (simp add: unauthorized_def comment_post_def guest_request_def member_def
        get_classification_level_def get_post_def sample_db_def hello_post_def
        validate_on_submit_def)
  from authorization_monotonic [OF step allowed, of 0 sample_db] step refused allowed
  show ?thesis by simp
qed

subsection \<open>C8: starting the process a second time\<close>

text \<open>
  When the store already holds a user with the configured admin email, the module body
  ends in an exception.
\<close>

lemma startup_existing_admin:
  assumes "filter (\<lambda>u. u_email u = email) (users db) \<noteq> []"
    and "ADMIN_EMAIL env = Some email"
  shows "isl (startup env today db)"
  using assms
  by (auto simp: startup_def add_user_def split: option.splits)

text \<open>
  C8, at a failing input. The first start against the empty store inserts the admin;
  the second start against the store so produced raises \<^verbatim>\<open>IntegrityError\<close> from
  the commit on line 88, and the import of the module ends there.
\<close>

theorem second_startup_raises:
  "startup sample_env 0 empty_db = Inr (0, \<lparr>users = [admin], posts = [], comments = []\<rparr>) \<and>
   startup sample_env 1 \<lparr>users = [admin], posts = [], comments = []\<rparr> = Inl IntegrityError"
  by (simp add: startup_def sample_env_def empty_db_def add_user_def next_id_def admin_def
      Let_def)

subsection \<open>C9: what an operation can do to an existing comment\<close>

text \<open>
  C9. Take any store that satisfies its key constraints, any comment \<open>c\<close> of it, and any
  single request to any route. Afterwards the row read back under the comment's id is
  \<open>c\<close> itself, or \<open>c\<close> with \<^verbatim>\<open>approved\<close> set to true and every other field as it was
  (only after \<^verbatim>\<open>approve_comment\<close> on this id), or there is no such row (only after
  \<^verbatim>\<open>delete_comment\<close> on this id or \<^verbatim>\<open>delete_post\<close> on its post). When an admin calls
  \<^verbatim>\<open>approve_comment\<close> on the id, the row read back is \<open>c\<close> with \<^verbatim>\<open>approved\<close> true.
\<close>

theorem comment_frame:
  assumes "db_ok db" and "get_comment db k = Some c"
  shows "(get_comment (snd (dispatch d r req db)) k = Some c \<or>
          (r = Approve_comment_route k \<and>
           get_comment (snd (dispatch d r req db)) k = Some (c\<lparr>c_approved := True\<rparr>)) \<or>
          ((r = Delete_comment_route k \<or> r = Delete_route (c_post_id c)) \<and>
           get_comment (snd (dispatch d r req db)) k = None)) \<and>
         (2 \<le> get_classification_level (current_user req) \<longrightarrow>
            get_comment (snd (approve_comment k req db)) k = Some (c\<lparr>c_approved := True\<rparr>))"
proof -
  from assms(2) have id: "c_id c = k" and found: "find (\<lambda>q. c_id q = k) (comments db) = Some c"
    by (auto simp: get_comment_def dest: find_Some_holds)
  from assms(1) have dist: "distinct (map c_id (comments db))" by (simp add: db_ok_def)
  have approve: "get_comment (snd (approve_comment j req db)) k =
      (if 2 \<le> get_classification_level (current_user req) \<and> j = k
       then Some (c\<lparr>c_approved := True\<rparr>) else Some c)" for j
  proof (cases "get_comment db j")
    case None
    with assms(2) show ?thesis by (auto simp: approve_comment_def)
  next
    case (Some c')
    then have "c_id c' = j" by (auto simp: get_comment_def dest: find_Some_holds)
    with Some assms(2) show ?thesis
      by (auto simp: approve_comment_def get_comment_update)
  qed
  have delete_c: "get_comment (snd (delete_comment j req db)) k = Some c \<or>
      (j = k \<and> get_comment (snd (delete_comment j req db)) k = None)" for j
  proof (cases "get_comment db j")
    case None
    with assms(2) show ?thesis by (auto simp: delete_comment_def)
  next
    case (Some c')
    then have j: "c_id c' = j" by (auto simp: get_comment_def dest: find_Some_holds)
    show ?thesis
    proof (cases "j = k")
      case True
      with Some assms(2) have "c' = c" by simp
      with Some j True show ?thesis
        by (auto simp: delete_comment_def Let_def delete_comment_row_def get_comment_def
            find_None_filter)
    next
      case False
      with id j find_filter_keep [OF found, of "\<lambda>q. c_id q \<noteq> c_id c'"] Some assms(2)
      show ?thesis
        by (auto simp: delete_comment_def Let_def delete_comment_row_def get_comment_def)
    qed
  qed
  have delete_p: "get_comment (snd (delete_post j req db)) k = Some c \<or>
      (j = c_post_id c \<and> get_comment (snd (delete_post j req db)) k = None)" for j
  proof (cases "get_post db j")
    case None
    with assms(2) show ?thesis by (auto simp: delete_post_def)
  next
    case (Some p)
    then have j: "p_id p = j" by (auto simp: get_post_def dest: find_Some_holds)
    show ?thesis
    proof (cases "c_post_id c = j")
      case True
      with j find_filter_drop [OF dist found, of "\<lambda>q. c_post_id q \<noteq> p_id p"] Some assms(2)
      show ?thesis
        by (auto simp: delete_post_def delete_post_row_def get_comment_def)
    next
      case False
      with j find_filter_keep [OF found, of "\<lambda>q. c_post_id q \<noteq> p_id p"] Some assms(2)
      show ?thesis
        by (auto simp: delete_post_def delete_post_row_def get_comment_def)
    qed
  qed
  have comment: "get_comment (snd (comment_post j req db)) k = Some c" for j
    using assms(2) find_append_keep [OF found]
    by (auto simp: comment_post_def add_comment_def Let_def get_comment_def split: option.splits)
  have create: "get_comment (snd (create_post d req db)) k = Some c"
    using assms(2)
    by (auto simp: create_post_def add_post_def Let_def get_comment_def
        split: option.splits sum.splits if_splits)
  have edit: "get_comment (snd (edit_post j req db)) k = Some c" for j
    using assms(2)
    by (auto simp: edit_post_def update_post_def get_comment_def
        split: option.splits sum.splits if_splits)
  have reg: "get_comment (snd (register req db)) k = Some c"
    using assms(2)
    by (auto simp: register_def add_user_def Let_def get_comment_def
        split: option.splits sum.splits if_splits)
  have frame: "get_comment (snd (dispatch d r req db)) k = Some c \<or>
          (r = Approve_comment_route k \<and>
           get_comment (snd (dispatch d r req db)) k = Some (c\<lparr>c_approved := True\<rparr>)) \<or>
          ((r = Delete_comment_route k \<or> r = Delete_route (c_post_id c)) \<and>
           get_comment (snd (dispatch d r req db)) k = None)"
  proof (cases r)
    case (Approve_comment_route j)
    with approve [of j] show ?thesis by (auto split: if_splits)
  next
    case (Delete_comment_route j)
    with delete_c [of j] show ?thesis by auto
  next
    case (Delete_route j)
    with delete_p [of j] show ?thesis by auto
  next
    case (Comment_route j)
    with comment [of j] show ?thesis by simp
  next
    case (Edit_route j)
    with edit [of j] show ?thesis by simp
  next
    case Create_route
    with create show ?thesis by simp
  next
    case Register_route
    with reg show ?thesis by simp
  qed (use assms(2) in \<open>simp_all add: login_def logout_def home_def about_def contact_def
        show_post_def Let_def split: option.splits\<close>)
  from frame approve [of k] show ?thesis by simp
qed

theorem comment_frame_witness:
  "db_ok sample_db \<and> get_comment sample_db 1 = Some pending_comment \<and>
   2 \<le> get_classification_level (current_user admin_request) \<and>
   get_comment (snd (dispatch 0 (Approve_comment_route 1) admin_request sample_db)) 1 =
     Some (pending_comment\<lparr>c_approved := True\<rparr>) \<and>
   get_comment (snd (approve_comment 1 admin_request sample_db)) 1 =
     Some (pending_comment\<lparr>c_approved := True\<rparr>)"
proof -
  have found: "get_comment sample_db 1 = Some pending_comment"
    by (simp add: get_comment_def sample_db_def pending_comment_def)
  have level: "2 \<le> get_classification_level (current_user admin_request)"
    by (simp add: admin_request_def admin_def get_classification_level_def)
  from comment_frame [OF db_ok_sample found, of 0 "Approve_comment_route 1" admin_request]
    db_ok_sample found level
  show ?thesis by simp
qed

subsection \<open>C10: approving an approved comment\<close>

text \<open>
  Calling \<^verbatim>\<open>approve_comment\<close> again on the store the first call returned gives the
  outcome of the first call: the same response and the same store.
\<close>

lemma approve_comment_repeat:
  "approve_comment comment_id req (snd (approve_comment comment_id req db)) =
     approve_comment comment_id req db"
proof (cases "get_classification_level (current_user req) < 2")
  case True
  then show ?thesis by (simp add: approve_comment_def)
next
  case admin: False
  show ?thesis
  proof (cases "get_comment db comment_id")
    case None
    with admin show ?thesis by (simp add: approve_comment_def)
  next
    case (Some c)
    then have id: "c_id c = comment_id"
      by (auto simp: get_comment_def dest: find_Some_holds)
    let ?row = "c\<lparr>c_approved := True\<rparr>"
    from admin Some have first: "approve_comment comment_id req db =
        (Inr (Redirect (Show_post (c_post_id c))), update_comment ?row db)"
      by (simp add: approve_comment_def)
    from Some id have "get_comment (update_comment ?row db) comment_id = Some ?row"
      by (simp add: get_comment_update)
    with admin have "approve_comment comment_id req (update_comment ?row db) =
        (Inr (Redirect (Show_post (c_post_id c))), update_comment ?row db)"
      by (simp add: approve_comment_def update_comment_twice)
    with first show ?thesis by simp
  qed
qed

text \<open>
  C10. When an admin calls \<^verbatim>\<open>approve_comment\<close> on a comment whose \<^verbatim>\<open>approved\<close>
  is already true, the call succeeds: it redirects to the page of the comment's post
  and returns the store unchanged; a further call gives the same again.
\<close>

theorem approve_comment_idempotent:
  assumes "db_ok db"
    and "2 \<le> get_classification_level (current_user req)"
    and "get_comment db comment_id = Some c"
    and "c_approved c"
  shows "approve_comment comment_id req db = (Inr (Redirect (Show_post (c_post_id c))), db) \<and>
         approve_comment comment_id req (snd (approve_comment comment_id req db)) =
           approve_comment comment_id req db"
proof -
  from assms(3) have c: "c_id c = comment_id" "c \<in> set (comments db)"
    by (auto simp: get_comment_def dest: find_Some_holds)
  from assms(4) have same: "c\<lparr>c_approved := True\<rparr> = c" by simp
  from assms(1) have "distinct (map c_id (comments db))" by (simp add: db_ok_def)
  from map_update_same [OF this c(2)] have "update_comment c db = db"
    by (simp add: update_comment_def)
  with assms(2,3) same
  have "approve_comment comment_id req db = (Inr (Redirect (Show_post (c_post_id c))), db)"
    by (simp add: approve_comment_def)
  with approve_comment_repeat [of comment_id req db] show ?thesis by simp
qed

theorem approve_comment_idempotent_witness:
  "db_ok sample_db \<and>
   2 \<le> get_classification_level (current_user admin_request) \<and>
   get_comment sample_db 2 = Some approved_comment \<and> c_approved approved_comment \<and>
   approve_comment 2 admin_request sample_db = (Inr (Redirect (Show_post 1)), sample_db)"
proof -
  have level: "2 \<le> get_classification_level (current_user admin_request)"
    by (simp add: admin_request_def admin_def get_classification_level_def)
  have found: "get_comment sample_db 2 = Some approved_comment"
    by (simp add: get_comment_def sample_db_def pending_comment_def approved_comment_def)
  have flag: "c_approved approved_comment" "c_post_id approved_comment = 1"
    by (simp_all add: approved_comment_def)
  from approve_comment_idempotent [OF db_ok_sample level found flag(1)]
    db_ok_sample level found flag
  show ?thesis by simp
qed

end
